theory Spec2Isabelle
  imports Main "HOL-Library.Word" "HOL-Library.AList" "HOL-Library.Sublist"
begin

section \<open>TransactionCallbackInvoker: data model\<close>

text \<open>
  The embedding follows \<^verbatim>\<open>services/surfaceflinger/TransactionCallbackInvoker.cpp\<close>.
  A listener (\<^verbatim>\<open>sp<IBinder>\<close>), a fence (\<^verbatim>\<open>sp<Fence>\<close>) and a surface control are
  identities, written as natural numbers; a nullable \<^verbatim>\<open>sp<>\<close> is an \<open>option\<close>.
\<close>

datatype CallbackType = ON_COMPLETE | ON_COMMIT

text \<open>
  Modelled from the spec: the declaration of \<^verbatim>\<open>CallbackId\<close> is in a header that is not
  among the sources. The code reads its members \<^verbatim>\<open>id\<close> and \<^verbatim>\<open>type\<close>; the spec calls the
  ids small integers, so \<open>callback_id\<close> is an integer.
\<close>

record CallbackId =
  callback_id :: int
  callback_type :: CallbackType

datatype status_t = NO_ERROR | BAD_VALUE | LinkError nat

text \<open>
  \<open>LinkError\<close> stands for any other status that \<^verbatim>\<open>linkToDeath\<close> may answer. Undefined
  behaviour of the C++ code is a value of its own.
\<close>

datatype fault = FrontOfEmptyVector

text \<open>
  Modelled from the spec: \<^verbatim>\<open>FrameEventHistoryStats\<close> and \<^verbatim>\<open>SurfaceStats\<close> are declared outside
  the sources. The invoker only builds them from a handle's "timing/fence/jank payload,
  opaque to the core beyond being copied into the result record"; the arguments are in
  the order of the constructor calls in \<^verbatim>\<open>addCallbackHandle\<close>, jank data being a list of
  opaque items.
\<close>

datatype FrameEventHistoryStats = FrameEventHistoryStats nat nat nat int int

datatype SurfaceStats =
  SurfaceStats nat int nat nat nat FrameEventHistoryStats "nat list" nat

text \<open>
  Modelled from the spec: \<^verbatim>\<open>TransactionStats\<close> is declared outside the sources. Its latch
  timestamp is "unset until the batch's visible state is latched" and the dispatch loop
  tests \<^verbatim>\<open>latchTime >= 0\<close> for "has been latched", so a fresh record carries \<open>-1\<close>; its
  presentation fence is unset (null) and its result sequence empty.
\<close>

record TransactionStats =
  callbackIds :: "CallbackId list"
  latchTime :: int
  presentFence :: "nat option"
  surfaceStats :: "SurfaceStats list"

definition newTransactionStats :: "CallbackId list \<Rightarrow> TransactionStats" where
  "newTransactionStats ids =
     \<lparr>callbackIds = ids, latchTime = - 1, presentFence = None, surfaceStats = []\<rparr>"

record ListenerStats =
  stats_listener :: nat
  transactionStats :: "TransactionStats list"

text \<open>
  \<open>handle_surfaceControl\<close> is the result of \<^verbatim>\<open>surfaceControl.promote()\<close>: \<open>None\<close> when the
  weakly referenced surface control is gone.
\<close>

record CallbackHandle =
  handle_listener :: nat
  handle_callbackIds :: "CallbackId list"
  handle_surfaceControl :: "nat option"
  handle_latchTime :: int
  handle_frameNumber :: nat
  handle_gpuCompositionDoneFence :: nat
  handle_compositorTiming :: nat
  handle_refreshStartTime :: int
  handle_dequeueReadyTime :: int
  handle_acquireTime :: int
  handle_previousReleaseFence :: nat
  handle_transformHint :: nat
  handle_currentMaxAcquiredBufferCount :: nat
  handle_previousReleaseCallbackId :: nat

text \<open>
  Modelled from the spec: the members of the class are declared in the missing header.
  The registration set is "the set of (ListenerId, CallbackSetId) pairs currently between
  startRegistration and endRegistration"; the pending count is an "integer \<ge> 0" per
  (listener, ids), here an unsigned 32-bit counter so that \<^verbatim>\<open>++\<close> and \<^verbatim>\<open>--\<close> behave as on
  a machine integer. The two \<^verbatim>\<open>unordered_map\<close>s are association lists read with
  \<open>map_of\<close>; the order of \<open>mCompletedTransactions\<close> stands for the (unspecified)
  iteration order of the map, a new key going to the end.
\<close>

record TransactionCallbackInvoker =
  mRegisteringTransactions :: "(nat \<times> CallbackId list) set"
  mPendingTransactions :: "(nat \<times> (CallbackId list \<times> 32 word) list) list"
  mCompletedTransactions :: "(nat \<times> TransactionStats list) list"
  mPresentFence :: "nat option"

definition init :: TransactionCallbackInvoker where
  "init = \<lparr>mRegisteringTransactions = {}, mPendingTransactions = [],
            mCompletedTransactions = [], mPresentFence = None\<rparr>"

text \<open>What the invoker does to the outside: binder calls and log lines.\<close>

datatype event =
    LinkToDeath nat
  | UnlinkToDeath nat
  | OnTransactionCompleted ListenerStats
  | ALOGE string
  | ALOGW string

section \<open>The functions of the source\<close>

text \<open>
  \<^verbatim>\<open>compareCallbackIds\<close>: the result type is \<^verbatim>\<open>int\<close>, so the difference of the two leading
  ids is converted to a signed 32-bit value. \<^verbatim>\<open>c2.front()\<close> on an empty vector is
  undefined behaviour.
\<close>

definition compareCallbackIds :: "CallbackId list \<Rightarrow> CallbackId list \<Rightarrow> fault + int" where
  "compareCallbackIds c1 c2 =
     (case c1 of
        [] \<Rightarrow> Inr (if c2 \<noteq> [] then 1 else 0)
      | x # _ \<Rightarrow>
          (case c2 of
             [] \<Rightarrow> Inl FrontOfEmptyVector
           | y # _ \<Rightarrow> Inr (sint (word_of_int (callback_id x - callback_id y) :: 32 word))))"

definition containsOnCommitCallbacks :: "CallbackId list \<Rightarrow> bool" where
  "containsOnCommitCallbacks callbacks =
     (case callbacks of [] \<Rightarrow> False | c # _ \<Rightarrow> callback_type c = ON_COMMIT)"

text \<open>\<open>dequeOf\<close> reads a listener's deque without creating it.\<close>

definition dequeOf :: "TransactionCallbackInvoker \<Rightarrow> nat \<Rightarrow> TransactionStats list" where
  "dequeOf s listener =
     (case map_of (mCompletedTransactions s) listener of None \<Rightarrow> [] | Some d \<Rightarrow> d)"

text \<open>
  \<^verbatim>\<open>startRegistration\<close>. \<open>linkToDeath\<close> is the binder's answer to
  \<^verbatim>\<open>listener->linkToDeath(mDeathRecipient)\<close>.
\<close>

definition startRegistration ::
  "(nat \<Rightarrow> status_t) \<Rightarrow> nat \<times> CallbackId list \<Rightarrow> TransactionCallbackInvoker \<Rightarrow>
     status_t \<times> event list \<times> TransactionCallbackInvoker" where
  "startRegistration linkToDeath listenerCallbacks s =
     (let inserted = (listenerCallbacks \<notin> mRegisteringTransactions s);
          s1 = s\<lparr>mRegisteringTransactions :=
                   insert listenerCallbacks (mRegisteringTransactions s)\<rparr>;
          listener = fst listenerCallbacks;
          ids = snd listenerCallbacks
      in if inserted then
           (if map_of (mCompletedTransactions s1) listener = None then
              (if linkToDeath listener \<noteq> NO_ERROR then
                 (linkToDeath listener,
                  [LinkToDeath listener,
                   ALOGE ''cannot add callback because linkToDeath failed''], s1)
               else
                 (NO_ERROR, [LinkToDeath listener],
                  s1\<lparr>mCompletedTransactions :=
                       AList.update listener (dequeOf s1 listener @ [newTransactionStats ids])
                         (mCompletedTransactions s1)\<rparr>))
            else
              (NO_ERROR, [],
               s1\<lparr>mCompletedTransactions :=
                    AList.update listener (dequeOf s1 listener @ [newTransactionStats ids])
                      (mCompletedTransactions s1)\<rparr>))
         else (NO_ERROR, [], s1))"


definition isRegisteringTransaction ::
  "TransactionCallbackInvoker \<Rightarrow> nat \<Rightarrow> CallbackId list \<Rightarrow> bool" where
  "isRegisteringTransaction s transactionListener ids =
     ((transactionListener, ids) \<in> mRegisteringTransactions s)"

text \<open>
  The loop of \<^verbatim>\<open>findTransactionStats\<close>, on the reversed deque ("search back to front").
  The answer is the position in the deque of the element found.
\<close>

fun searchBackToFront :: "TransactionStats list \<Rightarrow> CallbackId list \<Rightarrow> fault + nat option" where
  "searchBackToFront [] ids = Inr None"
| "searchBackToFront (t # rs) ids =
     (case compareCallbackIds (callbackIds t) ids of
        Inl f \<Rightarrow> Inl f
      | Inr c \<Rightarrow> if c = 0 then Inr (Some (length rs)) else searchBackToFront rs ids)"

text \<open>
  \<^verbatim>\<open>findTransactionStats\<close>: \<^verbatim>\<open>mCompletedTransactions[listener]\<close> creates an empty deque
  for a listener the map does not hold. \<open>Some i\<close> is \<^verbatim>\<open>NO_ERROR\<close> with
  \<^verbatim>\<open>*outTransactionStats\<close> pointing at element \<open>i\<close> of the deque, \<open>None\<close> is
  \<^verbatim>\<open>BAD_VALUE\<close>.
\<close>

definition findTransactionStats ::
  "nat \<Rightarrow> CallbackId list \<Rightarrow> TransactionCallbackInvoker \<Rightarrow>
     fault + (nat option \<times> event list \<times> TransactionCallbackInvoker)" where
  "findTransactionStats listener ids s =
     (let s1 = (if map_of (mCompletedTransactions s) listener = None
                then s\<lparr>mCompletedTransactions := mCompletedTransactions s @ [(listener, [])]\<rparr>
                else s)
      in case searchBackToFront (rev (dequeOf s1 listener)) ids of
           Inl f \<Rightarrow> Inl f
         | Inr None \<Rightarrow> Inr (None, [ALOGE ''could not find transaction stats''], s1)
         | Inr (Some i) \<Rightarrow> Inr (Some i, [], s1))"

definition registerPendingCallbackHandle ::
  "CallbackHandle \<Rightarrow> TransactionCallbackInvoker \<Rightarrow>
     fault + (status_t \<times> event list \<times> TransactionCallbackInvoker)" where
  "registerPendingCallbackHandle handle s =
     (case findTransactionStats (handle_listener handle) (handle_callbackIds handle) s of
        Inl f \<Rightarrow> Inl f
      | Inr (None, evs, s1) \<Rightarrow>
          Inr (BAD_VALUE, evs @ [ALOGE ''cannot find transaction stats''], s1)
      | Inr (Some i, evs, s1) \<Rightarrow>
          (let pendingCallbacks =
                 (case map_of (mPendingTransactions s1) (handle_listener handle) of
                    None \<Rightarrow> [] | Some m \<Rightarrow> m);
               pendingCount =
                 (case map_of pendingCallbacks (handle_callbackIds handle) of
                    None \<Rightarrow> 0 | Some c \<Rightarrow> c)
           in Inr (NO_ERROR, evs,
                   s1\<lparr>mPendingTransactions :=
                        AList.update (handle_listener handle)
                          (AList.update (handle_callbackIds handle) (pendingCount + 1)
                             pendingCallbacks)
                          (mPendingTransactions s1)\<rparr>)))"

definition addCallbackHandle ::
  "CallbackHandle \<Rightarrow> nat list \<Rightarrow> TransactionCallbackInvoker \<Rightarrow>
     fault + (status_t \<times> event list \<times> TransactionCallbackInvoker)" where
  "addCallbackHandle handle jankData s =
     (case findTransactionStats (handle_listener handle) (handle_callbackIds handle) s of
        Inl f \<Rightarrow> Inl f
      | Inr (None, evs, s1) \<Rightarrow> Inr (BAD_VALUE, evs, s1)
      | Inr (Some i, evs, s1) \<Rightarrow>
          (let deque = dequeOf s1 (handle_listener handle);
               t = deque ! i;
               t1 = t\<lparr>latchTime := handle_latchTime handle\<rparr>;
               t2 = (case handle_surfaceControl handle of
                       None \<Rightarrow> t1
                     | Some surfaceControl \<Rightarrow>
                         t1\<lparr>surfaceStats := surfaceStats t1 @
                              [SurfaceStats surfaceControl (handle_acquireTime handle)
                                 (handle_previousReleaseFence handle)
                                 (handle_transformHint handle)
                                 (handle_currentMaxAcquiredBufferCount handle)
                                 (FrameEventHistoryStats (handle_frameNumber handle)
                                    (handle_gpuCompositionDoneFence handle)
                                    (handle_compositorTiming handle)
                                    (handle_refreshStartTime handle)
                                    (handle_dequeueReadyTime handle))
                                 jankData
                                 (handle_previousReleaseCallbackId handle)]\<rparr>)
           in Inr (NO_ERROR, evs,
                   s1\<lparr>mCompletedTransactions :=
                        AList.update (handle_listener handle) (deque[i := t2])
                          (mCompletedTransactions s1)\<rparr>)))"

text \<open>
  The first half of \<^verbatim>\<open>finalizeCallbackHandle\<close>: the new \<open>mPendingTransactions\<close> and the
  warnings logged.
\<close>

definition decreasePending ::
  "CallbackHandle \<Rightarrow> (nat \<times> (CallbackId list \<times> 32 word) list) list \<Rightarrow>
     (nat \<times> (CallbackId list \<times> 32 word) list) list \<times> event list" where
  "decreasePending handle pending =
     (case map_of pending (handle_listener handle) of
        Some pendingCallbacks \<Rightarrow>
          (let (pendingCallbacks1, evs) =
                 (case map_of pendingCallbacks (handle_callbackIds handle) of
                    Some pendingCount \<Rightarrow>
                      (if pendingCount - 1 = 0
                       then AList.delete (handle_callbackIds handle) pendingCallbacks
                       else AList.update (handle_callbackIds handle) (pendingCount - 1)
                              pendingCallbacks, [])
                  | None \<Rightarrow>
                      (pendingCallbacks,
                       [ALOGW ''there are more latched callbacks than there were registered callbacks'']))
           in if pendingCallbacks1 = []
              then (AList.delete (handle_listener handle) pending, evs)
              else (AList.update (handle_listener handle) pendingCallbacks1 pending, evs))
      | None \<Rightarrow> (pending, [ALOGW ''cannot find listener in mPendingTransactions'']))"

definition finalizeCallbackHandle ::
  "CallbackHandle \<Rightarrow> nat list \<Rightarrow> TransactionCallbackInvoker \<Rightarrow>
     fault + (status_t \<times> event list \<times> TransactionCallbackInvoker)" where
  "finalizeCallbackHandle handle jankData s =
     (let (pending1, evs) = decreasePending handle (mPendingTransactions s)
      in case addCallbackHandle handle jankData (s\<lparr>mPendingTransactions := pending1\<rparr>) of
           Inl f \<Rightarrow> Inl f
         | Inr (err, evs1, s1) \<Rightarrow>
             (if err \<noteq> NO_ERROR
              then Inr (err, evs @ evs1 @ [ALOGE ''could not add callback handle''], s1)
              else Inr (NO_ERROR, evs @ evs1, s1)))"







subsection \<open>sendCallbacks\<close>

text \<open>
  \<open>isPending\<close> is the test
  \<^verbatim>\<open>pendingTransactions != end() && pendingTransactions->second.count(ids) != 0\<close>.
\<close>

definition isPending :: "TransactionCallbackInvoker \<Rightarrow> nat \<Rightarrow> CallbackId list \<Rightarrow> bool" where
  "isPending s listener ids =
     (case map_of (mPendingTransactions s) listener of
        None \<Rightarrow> False
      | Some pendingCallbacks \<Rightarrow> map_of pendingCallbacks ids \<noteq> None)"

text \<open>
  The inner loop ("for each transaction"): the transactions moved to
  \<^verbatim>\<open>listenerStats.transactionStats\<close> and what is left of the deque.
\<close>

fun walkTransactions ::
  "TransactionCallbackInvoker \<Rightarrow> nat \<Rightarrow> TransactionStats list \<Rightarrow>
     TransactionStats list \<times> TransactionStats list" where
  "walkTransactions s listener [] = ([], [])"
| "walkTransactions s listener (t # ts) =
     (if isRegisteringTransaction s listener (callbackIds t) then ([], t # ts)
      else if isPending s listener (callbackIds t) then ([], t # ts)
      else if 0 \<le> latchTime t \<and> \<not> containsOnCommitCallbacks (callbackIds t) then
        (if mPresentFence s = None then ([], t # ts)
         else (let (batch, rest) = walkTransactions s listener ts
               in (t\<lparr>presentFence := mPresentFence s\<rparr> # batch, rest)))
      else (let (batch, rest) = walkTransactions s listener ts in (t # batch, rest)))"

text \<open>
  The outer loop ("for each listener"), over the entries of \<open>mCompletedTransactions\<close>:
  the calls made and the entries kept. \<open>isBinderAlive\<close> is the binder's answer.
\<close>

fun walkListeners ::
  "(nat \<Rightarrow> bool) \<Rightarrow> TransactionCallbackInvoker \<Rightarrow> (nat \<times> TransactionStats list) list \<Rightarrow>
     event list \<times> (nat \<times> TransactionStats list) list" where
  "walkListeners isBinderAlive s [] = ([], [])"
| "walkListeners isBinderAlive s ((listener, deque) # entries) =
     (let (batch, rest) = walkTransactions s listener deque;
          (evs, entries1) = walkListeners isBinderAlive s entries
      in if batch \<noteq> [] then
           (if isBinderAlive listener then
              (if rest = [] then
                 (OnTransactionCompleted \<lparr>stats_listener = listener, transactionStats = batch\<rparr>
                    # UnlinkToDeath listener # evs, entries1)
               else
                 (OnTransactionCompleted \<lparr>stats_listener = listener, transactionStats = batch\<rparr>
                    # evs, (listener, rest) # entries1))
            else (evs, entries1))
         else (evs, (listener, rest) # entries1))"

definition sendCallbacks ::
  "(nat \<Rightarrow> bool) \<Rightarrow> TransactionCallbackInvoker \<Rightarrow> event list \<times> TransactionCallbackInvoker" where
  "sendCallbacks isBinderAlive s =
     (let (evs, entries1) = walkListeners isBinderAlive s (mCompletedTransactions s)
      in (evs, s\<lparr>mCompletedTransactions := entries1, mPresentFence := None\<rparr>))"

subsection \<open>Reading the state\<close>

text \<open>The pending count of a (listener, ids) pair; \<open>None\<close> when there is no entry.\<close>

definition pendingCount ::
  "TransactionCallbackInvoker \<Rightarrow> nat \<Rightarrow> CallbackId list \<Rightarrow> 32 word option" where
  "pendingCount s listener ids =
     (case map_of (mPendingTransactions s) listener of
        None \<Rightarrow> None
      | Some pendingCallbacks \<Rightarrow> map_of pendingCallbacks ids)"

text \<open>
  The constructor \<^verbatim>\<open>CallbackHandle(transactionListener, ids, sc)\<close> with a latch time;
  the other members are zero.
\<close>

definition makeHandle :: "nat \<Rightarrow> CallbackId list \<Rightarrow> nat option \<Rightarrow> int \<Rightarrow> CallbackHandle" where
  "makeHandle transactionListener ids sc latch =
     \<lparr>handle_listener = transactionListener, handle_callbackIds = ids,
      handle_surfaceControl = sc, handle_latchTime = latch, handle_frameNumber = 0,
      handle_gpuCompositionDoneFence = 0, handle_compositorTiming = 0,
      handle_refreshStartTime = 0, handle_dequeueReadyTime = 0, handle_acquireTime = 0,
      handle_previousReleaseFence = 0, handle_transformHint = 0,
      handle_currentMaxAcquiredBufferCount = 0, handle_previousReleaseCallbackId = 0\<rparr>"

subsection \<open>Sequences of calls\<close>




text \<open>The transactions sent to a listener, in the order of sending.\<close>

fun deliveredTo :: "nat \<Rightarrow> event list \<Rightarrow> TransactionStats list" where
  "deliveredTo l [] = []"
| "deliveredTo l (OnTransactionCompleted ls # evs) =
     (if stats_listener ls = l then transactionStats ls else []) @ deliveredTo l evs"
| "deliveredTo l (e # evs) = deliveredTo l evs"


subsection \<open>The conditions of the dispatch loop\<close>

text \<open>
  \<open>requiresPresentFence\<close> is the condition of line 282, "the transaction has been
  latched" and its callbacks are not on-commit ones; \<open>blocked\<close> collects the three
  conditions under which the inner loop of \<^verbatim>\<open>sendCallbacks\<close> breaks;
  \<open>withPresentFence\<close> is what the loop moves to the batch.
\<close>

definition requiresPresentFence :: "TransactionStats \<Rightarrow> bool" where
  "requiresPresentFence t =
     (0 \<le> latchTime t \<and> \<not> containsOnCommitCallbacks (callbackIds t))"

definition blocked :: "TransactionCallbackInvoker \<Rightarrow> nat \<Rightarrow> TransactionStats \<Rightarrow> bool" where
  "blocked s listener t =
     (isRegisteringTransaction s listener (callbackIds t)
      \<or> isPending s listener (callbackIds t)
      \<or> (requiresPresentFence t \<and> mPresentFence s = None))"

definition withPresentFence ::
  "TransactionCallbackInvoker \<Rightarrow> TransactionStats \<Rightarrow> TransactionStats" where
  "withPresentFence s t =
     (if requiresPresentFence t then t\<lparr>presentFence := mPresentFence s\<rparr> else t)"

text \<open>The callback ids of a listener's deque, front to back.\<close>

definition ledgerIds :: "TransactionCallbackInvoker \<Rightarrow> nat \<Rightarrow> CallbackId list list" where
  "ledgerIds s listener = map callbackIds (dequeOf s listener)"

section \<open>Comparison of callback ids\<close>

text \<open>
  C4: the comment above \<^verbatim>\<open>compareCallbackIds\<close> promises a result below zero when "all ids
  match but c2 is shorter" and above zero when "all ids match but c2 is longer". The
  code returns the difference of the leading ids and never looks at the lengths: a
  sequence and a longer one that starts with it compare equal, in both directions.
\<close>

theorem compareCallbackIds_ignores_length:
  "compareCallbackIds [\<lparr>callback_id = 1, callback_type = ON_COMPLETE\<rparr>]
      [\<lparr>callback_id = 1, callback_type = ON_COMPLETE\<rparr>,
       \<lparr>callback_id = 2, callback_type = ON_COMPLETE\<rparr>] = Inr 0
   \<and> compareCallbackIds [\<lparr>callback_id = 1, callback_type = ON_COMPLETE\<rparr>,
       \<lparr>callback_id = 2, callback_type = ON_COMPLETE\<rparr>]
      [\<lparr>callback_id = 1, callback_type = ON_COMPLETE\<rparr>] = Inr 0"
  by (simp add: compareCallbackIds_def)

text \<open>
  C10: the comparison reads \<^verbatim>\<open>c2.front()\<close> whenever the first sequence is not empty. With
  an empty second sequence that is the front of an empty vector; a lookup with an empty
  key in a deque that holds a transaction with ids reaches it.
\<close>

theorem compareCallbackIds_empty_key_fault:
  "compareCallbackIds [\<lparr>callback_id = 1, callback_type = ON_COMPLETE\<rparr>] []
     = Inl FrontOfEmptyVector
   \<and> registerPendingCallbackHandle (makeHandle 1 [] None 0)
        (snd (snd (startRegistration (\<lambda>_. NO_ERROR)
           (1, [\<lparr>callback_id = 1, callback_type = ON_COMPLETE\<rparr>]) init)))
     = Inl FrontOfEmptyVector"
  by (simp add: compareCallbackIds_def registerPendingCallbackHandle_def
      findTransactionStats_def startRegistration_def init_def makeHandle_def dequeOf_def
      newTransactionStats_def Let_def)

section \<open>Looking a transaction up and folding a handle into it\<close>

lemma searchBackToFront_bound:
  "searchBackToFront xs ids = Inr (Some i) \<Longrightarrow> i < length xs"
  by (induction xs) (auto split: sum.splits if_splits)

lemma dequeOf_fresh:
  "map_of (mCompletedTransactions s) l = None \<Longrightarrow>
   dequeOf (s\<lparr>mCompletedTransactions := mCompletedTransactions s @ [(l, [])]\<rparr>) l' = dequeOf s l'"
  by (simp add: dequeOf_def map_add_def split: option.splits)

lemma findTransactionStats_Some:
  assumes "findTransactionStats l ids s = Inr (Some i, evs, s1)"
  shows "s1 = s \<and> evs = [] \<and> i < length (dequeOf s l)
         \<and> searchBackToFront (rev (dequeOf s l)) ids = Inr (Some i)"
proof (cases "map_of (mCompletedTransactions s) l")
  case None
  then have "dequeOf s l = []" by (simp add: dequeOf_def)
  with None assms show ?thesis
    by (simp add: findTransactionStats_def Let_def dequeOf_fresh split: sum.splits option.splits)
next
  case (Some d)
  with assms have srch: "searchBackToFront (rev (dequeOf s l)) ids = Inr (Some i)" and "s1 = s" and "evs = []"
    by (auto simp: findTransactionStats_def Let_def split: sum.splits option.splits)
  from searchBackToFront_bound [OF srch] have "i < length (dequeOf s l)" by simp
  with srch \<open>s1 = s\<close> \<open>evs = []\<close> show ?thesis by simp
qed


lemma findTransactionStats_pending:
  "findTransactionStats l ids (s\<lparr>mPendingTransactions := p\<rparr>) =
     (case findTransactionStats l ids s of
        Inl f \<Rightarrow> Inl f
      | Inr (r, evs, s1) \<Rightarrow> Inr (r, evs, s1\<lparr>mPendingTransactions := p\<rparr>))"
  by (simp add: findTransactionStats_def Let_def dequeOf_def split: sum.splits option.splits)

lemma addCallbackHandle_pending:
  "addCallbackHandle h j (s\<lparr>mPendingTransactions := p\<rparr>) =
     (case addCallbackHandle h j s of
        Inl f \<Rightarrow> Inl f
      | Inr (r, evs, s1) \<Rightarrow> Inr (r, evs, s1\<lparr>mPendingTransactions := p\<rparr>))"
  by (simp add: addCallbackHandle_def findTransactionStats_pending dequeOf_def Let_def
      split: sum.splits option.splits prod.splits)

lemma dequeOf_update:
  "dequeOf (s\<lparr>mCompletedTransactions := AList.update l d (mCompletedTransactions s)\<rparr>) l' =
     (if l' = l then d else dequeOf s l')"
  by (simp add: dequeOf_def update_conv')

lemma addCallbackHandle_found:
  assumes "findTransactionStats (handle_listener h) (handle_callbackIds h) s = Inr (Some i, evs, s1)"
  shows "\<exists>s'. addCallbackHandle h jankData s = Inr (NO_ERROR, [], s')
     \<and> i < length (dequeOf s (handle_listener h))
     \<and> dequeOf s' (handle_listener h) =
         (dequeOf s (handle_listener h))
           [i := (dequeOf s (handle_listener h) ! i)
              \<lparr>latchTime := handle_latchTime h,
               surfaceStats := surfaceStats (dequeOf s (handle_listener h) ! i) @
                 (case handle_surfaceControl h of
                    None \<Rightarrow> []
                  | Some surfaceControl \<Rightarrow>
                      [SurfaceStats surfaceControl (handle_acquireTime h)
                         (handle_previousReleaseFence h) (handle_transformHint h)
                         (handle_currentMaxAcquiredBufferCount h)
                         (FrameEventHistoryStats (handle_frameNumber h)
                            (handle_gpuCompositionDoneFence h) (handle_compositorTiming h)
                            (handle_refreshStartTime h) (handle_dequeueReadyTime h))
                         jankData (handle_previousReleaseCallbackId h)])\<rparr>]
     \<and> (\<forall>l. l \<noteq> handle_listener h \<longrightarrow> dequeOf s' l = dequeOf s l)
     \<and> mRegisteringTransactions s' = mRegisteringTransactions s
     \<and> mPendingTransactions s' = mPendingTransactions s
     \<and> mPresentFence s' = mPresentFence s"
proof -
  from findTransactionStats_Some [OF assms]
  have eq: "s1 = s" "evs = []" and bound: "i < length (dequeOf s (handle_listener h))"
    by simp_all
  show ?thesis
    using assms bound unfolding eq
    by (cases "handle_surfaceControl h")
       (simp_all add: addCallbackHandle_def Let_def dequeOf_update)
qed

text \<open>
  C8: when the handle's (listener, ids) resolves to element \<open>i\<close> of the listener's deque,
  \<^verbatim>\<open>addCallbackHandle\<close> returns \<^verbatim>\<open>NO_ERROR\<close> and changes that element only: its latch time
  becomes the handle's, and its result sequence gains exactly one record when the
  surface control can still be promoted and nothing when it is gone. The callback ids
  and the present fence of the element, the other elements, the other listeners, the
  registration set, the pending counters and the present fence of the invoker stay.
\<close>

theorem addCallbackHandle_fold:
  assumes "findTransactionStats (handle_listener h) (handle_callbackIds h) s = Inr (Some i, evs, s1)"
  shows "\<exists>s'. addCallbackHandle h jankData s = Inr (NO_ERROR, [], s')
     \<and> i < length (dequeOf s (handle_listener h))
     \<and> dequeOf s' (handle_listener h) =
         (dequeOf s (handle_listener h))
           [i := (dequeOf s (handle_listener h) ! i)
              \<lparr>latchTime := handle_latchTime h,
               surfaceStats := surfaceStats (dequeOf s (handle_listener h) ! i) @
                 (case handle_surfaceControl h of
                    None \<Rightarrow> []
                  | Some surfaceControl \<Rightarrow>
                      [SurfaceStats surfaceControl (handle_acquireTime h)
                         (handle_previousReleaseFence h) (handle_transformHint h)
                         (handle_currentMaxAcquiredBufferCount h)
                         (FrameEventHistoryStats (handle_frameNumber h)
                            (handle_gpuCompositionDoneFence h) (handle_compositorTiming h)
                            (handle_refreshStartTime h) (handle_dequeueReadyTime h))
                         jankData (handle_previousReleaseCallbackId h)])\<rparr>]
     \<and> (\<forall>l. l \<noteq> handle_listener h \<longrightarrow> dequeOf s' l = dequeOf s l)
     \<and> mRegisteringTransactions s' = mRegisteringTransactions s
     \<and> mPendingTransactions s' = mPendingTransactions s
     \<and> mPresentFence s' = mPresentFence s"
  using assms by (rule addCallbackHandle_found)

theorem addCallbackHandle_fold_witness:
  "findTransactionStats 1 [\<lparr>callback_id = 5, callback_type = ON_COMMIT\<rparr>]
      (init\<lparr>mCompletedTransactions :=
         [(1, [newTransactionStats [\<lparr>callback_id = 5, callback_type = ON_COMMIT\<rparr>]])]\<rparr>)
     = Inr (Some 0, [],
         init\<lparr>mCompletedTransactions :=
           [(1, [newTransactionStats [\<lparr>callback_id = 5, callback_type = ON_COMMIT\<rparr>]])]\<rparr>)
   \<and> (\<exists>s'. addCallbackHandle
          (makeHandle 1 [\<lparr>callback_id = 5, callback_type = ON_COMMIT\<rparr>] None 100) []
          (init\<lparr>mCompletedTransactions :=
             [(1, [newTransactionStats [\<lparr>callback_id = 5, callback_type = ON_COMMIT\<rparr>]])]\<rparr>)
          = Inr (NO_ERROR, [], s')
        \<and> dequeOf s' 1 =
            [\<lparr>callbackIds = [\<lparr>callback_id = 5, callback_type = ON_COMMIT\<rparr>],
              latchTime = 100, presentFence = None, surfaceStats = []\<rparr>])"
proof -
  let ?ids = "[\<lparr>callback_id = 5, callback_type = ON_COMMIT\<rparr>]"
  let ?s = "init\<lparr>mCompletedTransactions := [(1, [newTransactionStats ?ids])]\<rparr>"
  let ?h = "makeHandle 1 ?ids None 100"
  have find: "findTransactionStats (handle_listener ?h) (handle_callbackIds ?h) ?s
                = Inr (Some 0, [], ?s)"
    by (simp add: findTransactionStats_def init_def dequeOf_def newTransactionStats_def
        compareCallbackIds_def makeHandle_def Let_def)
  from addCallbackHandle_fold [OF find, of "[]"] find show ?thesis
    by (auto simp: makeHandle_def dequeOf_def init_def newTransactionStats_def)
qed

section \<open>Finalizing a handle\<close>

lemma delete_Nil_map_of:
  "AList.delete k al = [] \<Longrightarrow> k' \<noteq> k \<Longrightarrow> map_of al k' = None"
  by (metis delete_conv' fun_upd_other map_of.simps(1))

lemma map_of_erase_or_update:
  "(case map_of (if m1 = [] then AList.delete k p else AList.update k m1 p) l of
      None \<Rightarrow> None | Some m \<Rightarrow> map_of m ids) =
   (if l = k then map_of m1 ids else (case map_of p l of None \<Rightarrow> None | Some m \<Rightarrow> map_of m ids))"
  by (simp add: update_conv' delete_conv')

lemma decreasePending_inner:
  assumes "map_of p (handle_listener h) = Some m"
  shows "\<exists>m1. fst (decreasePending h p) =
           (if m1 = [] then AList.delete (handle_listener h) p
            else AList.update (handle_listener h) m1 p)
     \<and> map_of m1 =
         (case map_of m (handle_callbackIds h) of
            None \<Rightarrow> map_of m
          | Some c \<Rightarrow> if c - 1 = 0 then (map_of m)(handle_callbackIds h := None)
                      else (map_of m)(handle_callbackIds h \<mapsto> c - 1))"
proof (cases "map_of m (handle_callbackIds h)")
  case None
  with assms show ?thesis
    by (intro exI [of _ m]) (simp add: decreasePending_def)
next
  case (Some c)
  show ?thesis
  proof (cases "c - 1 = 0")
    case True
    with assms Some show ?thesis
      by (intro exI [of _ "AList.delete (handle_callbackIds h) m"])
         (simp add: decreasePending_def delete_conv')
  next
    case False
    with assms Some show ?thesis
      by (intro exI [of _ "AList.update (handle_callbackIds h) (c - 1) m"])
         (simp add: decreasePending_def update_conv')
  qed
qed

lemma decreasePending_count:
  assumes "decreasePending h (mPendingTransactions s) = (p1, evs)"
  shows "pendingCount (s'\<lparr>mPendingTransactions := p1\<rparr>) l ids =
     (if l = handle_listener h \<and> ids = handle_callbackIds h then
        (case pendingCount s l ids of
           None \<Rightarrow> None
         | Some c \<Rightarrow> if c - 1 = 0 then None else Some (c - 1))
      else pendingCount s l ids)"
proof (cases "map_of (mPendingTransactions s) (handle_listener h)")
  case None
  with assms have "p1 = mPendingTransactions s"
    by (simp add: decreasePending_def)
  with None show ?thesis
    by (simp add: pendingCount_def)
next
  case (Some m)
  from decreasePending_inner [OF Some] assms obtain m1 where
    p1: "p1 = (if m1 = [] then AList.delete (handle_listener h) (mPendingTransactions s)
               else AList.update (handle_listener h) m1 (mPendingTransactions s))"
    and m1: "map_of m1 =
         (case map_of m (handle_callbackIds h) of
            None \<Rightarrow> map_of m
          | Some c \<Rightarrow> if c - 1 = 0 then (map_of m)(handle_callbackIds h := None)
                      else (map_of m)(handle_callbackIds h \<mapsto> c - 1))"
    by auto
  have "pendingCount (s'\<lparr>mPendingTransactions := p1\<rparr>) l ids =
          (if l = handle_listener h then map_of m1 ids else pendingCount s l ids)"
  proof -
    have sel: "mPendingTransactions (s'\<lparr>mPendingTransactions := p1\<rparr>) = p1"
      by simp
    show ?thesis
      unfolding pendingCount_def sel unfolding p1 by (rule map_of_erase_or_update)
  qed
  then show ?thesis
    using Some by (simp add: m1 pendingCount_def split: option.splits)
qed

lemma decreasePending_events:
  assumes "decreasePending h p = (p1, evs)"
  shows "(case map_of p (handle_listener h) of None \<Rightarrow> None
          | Some m \<Rightarrow> map_of m (handle_callbackIds h)) = None \<longrightarrow> (\<exists>m. evs = [ALOGW m])"
    and "(case map_of p (handle_listener h) of None \<Rightarrow> None
          | Some m \<Rightarrow> map_of m (handle_callbackIds h)) \<noteq> None \<longrightarrow> evs = []"
  using assms
  by (auto simp: decreasePending_def split: option.splits if_splits prod.splits)

lemma dequeOf_pending:
  "dequeOf (s\<lparr>mPendingTransactions := p\<rparr>) l = dequeOf s l"
  by (simp add: dequeOf_def)

text \<open>
  C7: for a handle whose (listener, ids) resolves to element \<open>i\<close> of the listener's deque,
  \<^verbatim>\<open>finalizeCallbackHandle\<close> returns \<^verbatim>\<open>NO_ERROR\<close>. A counter entry \<open>c\<close> becomes \<open>c - 1\<close>,
  and is removed exactly when \<open>c - 1 = 0\<close>; no other counter changes. Without a counter
  entry the call logs one warning and nothing else. In both cases the handle is folded
  into the transaction: element \<open>i\<close> gets the handle's latch time and, when the surface
  control can still be promoted, one more result record; every other element, every
  other deque, the registration set and the present fence stay.
\<close>

theorem finalizeCallbackHandle_counter:
  assumes "findTransactionStats (handle_listener h) (handle_callbackIds h) s
             = Inr (Some i, evs0, s0)"
  shows "\<exists>evs s'. finalizeCallbackHandle h jankData s = Inr (NO_ERROR, evs, s')
     \<and> pendingCount s' (handle_listener h) (handle_callbackIds h) =
         (case pendingCount s (handle_listener h) (handle_callbackIds h) of
            None \<Rightarrow> None
          | Some c \<Rightarrow> if c - 1 = 0 then None else Some (c - 1))
     \<and> (\<forall>l ids. (l, ids) \<noteq> (handle_listener h, handle_callbackIds h) \<longrightarrow>
            pendingCount s' l ids = pendingCount s l ids)
     \<and> (pendingCount s (handle_listener h) (handle_callbackIds h) = None \<longrightarrow>
            (\<exists>m. evs = [ALOGW m]))
     \<and> (pendingCount s (handle_listener h) (handle_callbackIds h) \<noteq> None \<longrightarrow> evs = [])
     \<and> i < length (dequeOf s (handle_listener h))
     \<and> dequeOf s' (handle_listener h) =
         (dequeOf s (handle_listener h))
           [i := (dequeOf s (handle_listener h) ! i)
              \<lparr>latchTime := handle_latchTime h,
               surfaceStats := surfaceStats (dequeOf s (handle_listener h) ! i) @
                 (case handle_surfaceControl h of
                    None \<Rightarrow> []
                  | Some surfaceControl \<Rightarrow>
                      [SurfaceStats surfaceControl (handle_acquireTime h)
                         (handle_previousReleaseFence h) (handle_transformHint h)
                         (handle_currentMaxAcquiredBufferCount h)
                         (FrameEventHistoryStats (handle_frameNumber h)
                            (handle_gpuCompositionDoneFence h) (handle_compositorTiming h)
                            (handle_refreshStartTime h) (handle_dequeueReadyTime h))
                         jankData (handle_previousReleaseCallbackId h)])\<rparr>]
     \<and> (\<forall>l. l \<noteq> handle_listener h \<longrightarrow> dequeOf s' l = dequeOf s l)
     \<and> mRegisteringTransactions s' = mRegisteringTransactions s
     \<and> mPresentFence s' = mPresentFence s"
proof -
  obtain p1 evs where dec: "decreasePending h (mPendingTransactions s) = (p1, evs)"
    by (cases "decreasePending h (mPendingTransactions s)")
  from addCallbackHandle_found [OF assms, of jankData] obtain sa where
    add: "addCallbackHandle h jankData s = Inr (NO_ERROR, [], sa)"
    and bound: "i < length (dequeOf s (handle_listener h))"
    and fold: "dequeOf sa (handle_listener h) =
         (dequeOf s (handle_listener h))
           [i := (dequeOf s (handle_listener h) ! i)
              \<lparr>latchTime := handle_latchTime h,
               surfaceStats := surfaceStats (dequeOf s (handle_listener h) ! i) @
                 (case handle_surfaceControl h of
                    None \<Rightarrow> []
                  | Some surfaceControl \<Rightarrow>
                      [SurfaceStats surfaceControl (handle_acquireTime h)
                         (handle_previousReleaseFence h) (handle_transformHint h)
                         (handle_currentMaxAcquiredBufferCount h)
                         (FrameEventHistoryStats (handle_frameNumber h)
                            (handle_gpuCompositionDoneFence h) (handle_compositorTiming h)
                            (handle_refreshStartTime h) (handle_dequeueReadyTime h))
                         jankData (handle_previousReleaseCallbackId h)])\<rparr>]"
    and others: "\<forall>l. l \<noteq> handle_listener h \<longrightarrow> dequeOf sa l = dequeOf s l"
    and reg: "mRegisteringTransactions sa = mRegisteringTransactions s"
    and fence: "mPresentFence sa = mPresentFence s"
    by blast
  let ?s' = "sa\<lparr>mPendingTransactions := p1\<rparr>"
  have fin: "finalizeCallbackHandle h jankData s = Inr (NO_ERROR, evs, ?s')"
    by (simp add: finalizeCallbackHandle_def dec addCallbackHandle_pending add)
  note cnt = decreasePending_count [OF dec, where s' = sa]
  have c1: "pendingCount ?s' (handle_listener h) (handle_callbackIds h) =
         (case pendingCount s (handle_listener h) (handle_callbackIds h) of
            None \<Rightarrow> None
          | Some c \<Rightarrow> if c - 1 = 0 then None else Some (c - 1))"
    by (simp add: cnt)
  have c2: "\<forall>l ids. (l, ids) \<noteq> (handle_listener h, handle_callbackIds h) \<longrightarrow>
            pendingCount ?s' l ids = pendingCount s l ids"
    by (auto simp: cnt)
  have e1: "pendingCount s (handle_listener h) (handle_callbackIds h) = None \<longrightarrow>
            (\<exists>m. evs = [ALOGW m])"
    and e2: "pendingCount s (handle_listener h) (handle_callbackIds h) \<noteq> None \<longrightarrow> evs = []"
    using decreasePending_events [OF dec] by (simp_all add: pendingCount_def)
  have f1: "dequeOf ?s' (handle_listener h) = dequeOf sa (handle_listener h)"
    and f2: "\<forall>l. l \<noteq> handle_listener h \<longrightarrow> dequeOf ?s' l = dequeOf s l"
    and f3: "mRegisteringTransactions ?s' = mRegisteringTransactions s"
    and f4: "mPresentFence ?s' = mPresentFence s"
    using others reg fence by (simp_all add: dequeOf_pending)
  show ?thesis
    apply (rule exI [of _ evs])
    apply (rule exI [of _ ?s'])
    using fin c1 c2 e1 e2 bound f1 [unfolded fold] f2 f3 f4
    apply (intro conjI)
    apply assumption+
    done
qed

theorem finalizeCallbackHandle_counter_witness:
  "findTransactionStats 1 [\<lparr>callback_id = 7, callback_type = ON_COMPLETE\<rparr>]
      (init\<lparr>mCompletedTransactions :=
         [(1, [newTransactionStats [\<lparr>callback_id = 7, callback_type = ON_COMPLETE\<rparr>]])]\<rparr>)
     = Inr (Some 0, [],
         init\<lparr>mCompletedTransactions :=
           [(1, [newTransactionStats [\<lparr>callback_id = 7, callback_type = ON_COMPLETE\<rparr>]])]\<rparr>)
   \<and> (\<exists>m s'. finalizeCallbackHandle
          (makeHandle 1 [\<lparr>callback_id = 7, callback_type = ON_COMPLETE\<rparr>] None 100) []
          (init\<lparr>mCompletedTransactions :=
             [(1, [newTransactionStats [\<lparr>callback_id = 7, callback_type = ON_COMPLETE\<rparr>]])]\<rparr>)
          = Inr (NO_ERROR, [ALOGW m], s')
        \<and> pendingCount s' 1 [\<lparr>callback_id = 7, callback_type = ON_COMPLETE\<rparr>] = None
        \<and> dequeOf s' 1 =
            [\<lparr>callbackIds = [\<lparr>callback_id = 7, callback_type = ON_COMPLETE\<rparr>],
              latchTime = 100, presentFence = None, surfaceStats = []\<rparr>])"
proof -
  let ?ids = "[\<lparr>callback_id = 7, callback_type = ON_COMPLETE\<rparr>]"
  let ?s = "init\<lparr>mCompletedTransactions := [(1, [newTransactionStats ?ids])]\<rparr>"
  let ?h = "makeHandle 1 ?ids None 100"
  have find: "findTransactionStats (handle_listener ?h) (handle_callbackIds ?h) ?s
                = Inr (Some 0, [], ?s)"
    by (simp add: findTransactionStats_def init_def dequeOf_def newTransactionStats_def
        compareCallbackIds_def makeHandle_def Let_def)
  have none: "pendingCount ?s (handle_listener ?h) (handle_callbackIds ?h) = None"
    by (simp add: pendingCount_def init_def)
  have deq: "dequeOf ?s (handle_listener ?h) = [newTransactionStats ?ids]"
    by (simp add: dequeOf_def init_def makeHandle_def)
  from finalizeCallbackHandle_counter [OF find, of "[]"] none find show ?thesis
    unfolding deq by (auto simp: makeHandle_def newTransactionStats_def)
qed

section \<open>Registration\<close>




text \<open>
  C5: \<^verbatim>\<open>registerPendingCallbackHandle\<close> for a listener the invoker has never seen
  returns \<^verbatim>\<open>BAD_VALUE\<close>, but \<^verbatim>\<open>mCompletedTransactions[listener]\<close> in
  \<^verbatim>\<open>findTransactionStats\<close> has left an empty deque for the listener. The next
  \<^verbatim>\<open>startRegistration\<close> of that listener finds \<^verbatim>\<open>count(listener) != 0\<close> and does not call
  \<^verbatim>\<open>linkToDeath\<close>, which it does on the untouched initial state.
\<close>

theorem registerPending_unknown_listener_leaves_entry:
  "registerPendingCallbackHandle
      (makeHandle 1 [\<lparr>callback_id = 5, callback_type = ON_COMPLETE\<rparr>] None 0) init
     = Inr (BAD_VALUE,
            [ALOGE ''could not find transaction stats'', ALOGE ''cannot find transaction stats''],
            init\<lparr>mCompletedTransactions := [(1, [])]\<rparr>)
   \<and> init\<lparr>mCompletedTransactions := [(1, [])]\<rparr> \<noteq> init
   \<and> fst (snd (startRegistration (\<lambda>_. NO_ERROR)
        (1, [\<lparr>callback_id = 5, callback_type = ON_COMPLETE\<rparr>])
        (init\<lparr>mCompletedTransactions := [(1, [])]\<rparr>))) = []
   \<and> fst (snd (startRegistration (\<lambda>_. NO_ERROR)
        (1, [\<lparr>callback_id = 5, callback_type = ON_COMPLETE\<rparr>]) init)) = [LinkToDeath 1]"
  by (simp add: registerPendingCallbackHandle_def findTransactionStats_def startRegistration_def
      init_def makeHandle_def dequeOf_def Let_def)

section \<open>One dispatch cycle\<close>

text \<open>
  The keys of an \<^verbatim>\<open>unordered_map\<close> are distinct; the theorems about \<^verbatim>\<open>sendCallbacks\<close>
  assume it of the association list that stands for \<open>mCompletedTransactions\<close>.
\<close>

lemma walkTransactions_takeWhile:
  "walkTransactions s l d =
     (map (withPresentFence s) (takeWhile (\<lambda>t. \<not> blocked s l t) d),
      dropWhile (\<lambda>t. \<not> blocked s l t) d)"
  by (induction d) (auto simp: blocked_def withPresentFence_def requiresPresentFence_def)

lemma callbackIds_withPresentFence [simp]:
  "callbackIds (withPresentFence s t) = callbackIds t"
  by (simp add: withPresentFence_def)

lemma walkListeners_keys:
  "walkListeners alive s al = (evs, al') \<Longrightarrow> fst ` set al' \<subseteq> fst ` set al"
proof (induction al arbitrary: evs al')
  case Nil
  then show ?case by simp
next
  case (Cons e al)
  obtain l d where e: "e = (l, d)" by (cases e)
  obtain evs1 al1 where rec: "walkListeners alive s al = (evs1, al1)"
    by (cases "walkListeners alive s al")
  from Cons.IH [OF rec] have sub: "fst ` set al1 \<subseteq> fst ` set al" .
  from Cons.prems have "al' = al1 \<or> (\<exists>r. al' = (l, r) # al1)"
    by (auto simp: e rec Let_def split: prod.splits if_splits)
  with sub show ?case
    by (force simp: e)
qed

lemma walkListeners_entry:
  assumes "distinct (map fst al)" and "walkListeners alive s al = (evs, al')"
  shows "distinct (map fst al')
     \<and> deliveredTo l evs =
         (case map_of al l of
            None \<Rightarrow> []
          | Some d \<Rightarrow> if alive l then fst (walkTransactions s l d) else [])
     \<and> map_of al' l =
         (case map_of al l of
            None \<Rightarrow> None
          | Some d \<Rightarrow>
              if fst (walkTransactions s l d) = [] then Some d
              else if alive l \<and> snd (walkTransactions s l d) \<noteq> []
                   then Some (snd (walkTransactions s l d)) else None)
     \<and> (UnlinkToDeath l \<in> set evs \<longleftrightarrow>
          (case map_of al l of
             None \<Rightarrow> False
           | Some d \<Rightarrow> fst (walkTransactions s l d) \<noteq> [] \<and> alive l
                       \<and> snd (walkTransactions s l d) = []))"
  using assms
proof (induction al arbitrary: evs al')
  case Nil
  then show ?case by simp
next
  case (Cons e al)
  obtain k d where e: "e = (k, d)" by (cases e)
  obtain evs1 al1 where rec: "walkListeners alive s al = (evs1, al1)"
    by (cases "walkListeners alive s al")
  obtain b r where w: "walkTransactions s k d = (b, r)"
    by (cases "walkTransactions s k d")
  from Cons.prems have dist: "distinct (map fst al)" and fresh: "k \<notin> fst ` set al"
    by (auto simp: e)
  note IH = Cons.IH [OF dist rec]
  from walkListeners_keys [OF rec] fresh have fresh1: "k \<notin> fst ` set al1" by blast
  have none: "map_of al k = None" "map_of al1 k = None"
    using fresh fresh1 by (simp_all add: map_of_eq_None_iff)
  have rd: "b = [] \<Longrightarrow> r = d"
    using w by (simp add: walkTransactions_takeWhile) (metis takeWhile_dropWhile_id append_Nil map_is_Nil_conv)
  show ?case
  proof (cases "l = k")
    case True
    with Cons.prems IH fresh1 none rd show ?thesis
      by (auto simp: e rec w Let_def split: if_splits)
  next
    case False
    with Cons.prems IH fresh1 show ?thesis
      by (auto simp: e rec w Let_def split: if_splits)
  qed
qed

lemma sendCallbacks_listener:
  assumes "distinct (map fst (mCompletedTransactions s))"
      and "sendCallbacks alive s = (evs, s')"
  shows "deliveredTo l evs =
           (if alive l
            then map (withPresentFence s) (takeWhile (\<lambda>t. \<not> blocked s l t) (dequeOf s l))
            else [])"
    and "dequeOf s' l =
           (if takeWhile (\<lambda>t. \<not> blocked s l t) (dequeOf s l) = [] then dequeOf s l
            else if alive l then dropWhile (\<lambda>t. \<not> blocked s l t) (dequeOf s l)
            else [])"
    and "map_of (mCompletedTransactions s') l = None \<longleftrightarrow>
           map_of (mCompletedTransactions s) l = None
           \<or> (takeWhile (\<lambda>t. \<not> blocked s l t) (dequeOf s l) \<noteq> []
               \<and> (alive l \<longrightarrow> dropWhile (\<lambda>t. \<not> blocked s l t) (dequeOf s l) = []))"
    and "UnlinkToDeath l \<in> set evs \<longleftrightarrow>
           alive l \<and> takeWhile (\<lambda>t. \<not> blocked s l t) (dequeOf s l) \<noteq> []
           \<and> dropWhile (\<lambda>t. \<not> blocked s l t) (dequeOf s l) = []"
    and "distinct (map fst (mCompletedTransactions s'))"
proof -
  obtain al' where w: "walkListeners alive s (mCompletedTransactions s) = (evs, al')"
    and s': "s' = s\<lparr>mCompletedTransactions := al', mPresentFence := None\<rparr>"
    using assms(2) by (auto simp: sendCallbacks_def split: prod.splits)
  define tk where "tk = takeWhile (\<lambda>t. \<not> blocked s l t) (dequeOf s l)"
  define dr where "dr = dropWhile (\<lambda>t. \<not> blocked s l t) (dequeOf s l)"
  note E = walkListeners_entry [OF assms(1) w, of l]
  have dist': "distinct (map fst (mCompletedTransactions s'))"
    using E by (simp add: s')
  have tkNil: "tk = [] \<Longrightarrow> dr = dequeOf s l"
    unfolding tk_def dr_def by (metis takeWhile_dropWhile_id append_Nil)
  have all: "deliveredTo l evs = (if alive l then map (withPresentFence s) tk else [])
      \<and> dequeOf s' l = (if tk = [] then dequeOf s l else if alive l then dr else [])
      \<and> (map_of (mCompletedTransactions s') l = None \<longleftrightarrow>
           map_of (mCompletedTransactions s) l = None \<or> (tk \<noteq> [] \<and> (alive l \<longrightarrow> dr = [])))
      \<and> (UnlinkToDeath l \<in> set evs \<longleftrightarrow> alive l \<and> tk \<noteq> [] \<and> dr = [])"
  proof (cases "map_of (mCompletedTransactions s) l")
    case None
    then have "dequeOf s l = []" by (simp add: dequeOf_def)
    then have "tk = []" by (simp add: tk_def)
    with None E \<open>dequeOf s l = []\<close> show ?thesis
      by (simp add: s' dequeOf_def)
  next
    case (Some d)
    then have d: "dequeOf s l = d" by (simp add: dequeOf_def)
    have W: "walkTransactions s l d = (map (withPresentFence s) tk, dr)"
      by (simp add: walkTransactions_takeWhile tk_def dr_def d)
    from E Some tkNil d show ?thesis
      by (auto simp: W s' dequeOf_def)
  qed
  show "deliveredTo l evs =
           (if alive l
            then map (withPresentFence s) (takeWhile (\<lambda>t. \<not> blocked s l t) (dequeOf s l))
            else [])"
    using all unfolding tk_def by blast
  show "dequeOf s' l =
           (if takeWhile (\<lambda>t. \<not> blocked s l t) (dequeOf s l) = [] then dequeOf s l
            else if alive l then dropWhile (\<lambda>t. \<not> blocked s l t) (dequeOf s l)
            else [])"
    using all unfolding tk_def dr_def by blast
  show "map_of (mCompletedTransactions s') l = None \<longleftrightarrow>
           map_of (mCompletedTransactions s) l = None
           \<or> (takeWhile (\<lambda>t. \<not> blocked s l t) (dequeOf s l) \<noteq> []
               \<and> (alive l \<longrightarrow> dropWhile (\<lambda>t. \<not> blocked s l t) (dequeOf s l) = []))"
    using all unfolding tk_def dr_def by blast
  show "UnlinkToDeath l \<in> set evs \<longleftrightarrow>
           alive l \<and> takeWhile (\<lambda>t. \<not> blocked s l t) (dequeOf s l) \<noteq> []
           \<and> dropWhile (\<lambda>t. \<not> blocked s l t) (dequeOf s l) = []"
    using all unfolding tk_def dr_def by blast
  show "distinct (map fst (mCompletedTransactions s'))"
    by (rule dist')
qed

lemma isPending_pendingCount:
  "isPending s l ids \<longleftrightarrow> pendingCount s l ids \<noteq> None"
  by (simp add: isPending_def pendingCount_def split: option.splits)

lemma takeWhile_stops:
  "i < length xs \<Longrightarrow> \<not> P (xs ! i) \<Longrightarrow> length (takeWhile P xs) \<le> i"
  by (metis linorder_not_less nth_mem set_takeWhileD takeWhile_nth)

lemma takeWhile_reaches:
  "i < length xs \<Longrightarrow> P (xs ! i) \<Longrightarrow> i \<le> length (takeWhile P xs) \<Longrightarrow> i < length (takeWhile P xs)"
  by (metis le_neq_implies_less nth_length_takeWhile)


lemma delivered_prefix:
  assumes "distinct (map fst (mCompletedTransactions s))"
      and "sendCallbacks alive s = (evs, s')"
  shows "deliveredTo l evs =
           map (withPresentFence s) (take (length (deliveredTo l evs)) (dequeOf s l))"
    and "length (deliveredTo l evs)
           \<le> length (takeWhile (\<lambda>t. \<not> blocked s l t) (dequeOf s l))"
    and "alive l \<Longrightarrow> length (deliveredTo l evs)
           = length (takeWhile (\<lambda>t. \<not> blocked s l t) (dequeOf s l))"
  using sendCallbacks_listener(1) [OF assms, of l]
  by (simp_all add: takeWhile_eq_take [symmetric])

text \<open>
  C2: in a dispatch cycle the transactions sent to a listener are the first \<open>n\<close>
  elements of its deque, in the order of the deque; none of them is registering or
  pending; and \<open>n\<close> is at most the position of any transaction that is still open for
  registration or has a pending entry, so neither that transaction nor a later one of
  the same listener is sent in the cycle.
\<close>

theorem sendCallbacks_stops_at_open_or_pending:
  assumes "distinct (map fst (mCompletedTransactions s))"
      and "sendCallbacks isBinderAlive s = (evs, s')"
  shows "deliveredTo l evs =
           map (withPresentFence s) (take (length (deliveredTo l evs)) (dequeOf s l))
     \<and> (\<forall>t \<in> set (deliveredTo l evs).
           \<not> isRegisteringTransaction s l (callbackIds t) \<and> \<not> isPending s l (callbackIds t))
     \<and> (\<forall>i < length (dequeOf s l).
           isRegisteringTransaction s l (callbackIds (dequeOf s l ! i))
           \<or> isPending s l (callbackIds (dequeOf s l ! i))
           \<longrightarrow> length (deliveredTo l evs) \<le> i)"
proof (intro conjI ballI allI impI)
  show "deliveredTo l evs =
          map (withPresentFence s) (take (length (deliveredTo l evs)) (dequeOf s l))"
    by (rule delivered_prefix(1) [OF assms])
next
  fix t assume "t \<in> set (deliveredTo l evs)"
  then obtain t0 where t0: "t0 \<in> set (takeWhile (\<lambda>t. \<not> blocked s l t) (dequeOf s l))"
    and t: "t = withPresentFence s t0"
    using sendCallbacks_listener(1) [OF assms, of l] by (auto split: if_splits)
  from t0 have "\<not> blocked s l t0" by (rule set_takeWhileD [THEN conjunct2])
  then show "\<not> isRegisteringTransaction s l (callbackIds t)"
    and "\<not> isPending s l (callbackIds t)"
    by (simp_all add: t blocked_def)
next
  fix i assume i: "i < length (dequeOf s l)"
    and "isRegisteringTransaction s l (callbackIds (dequeOf s l ! i))
           \<or> isPending s l (callbackIds (dequeOf s l ! i))"
  then have "\<not> \<not> blocked s l (dequeOf s l ! i)" by (auto simp: blocked_def)
  with i have "length (takeWhile (\<lambda>t. \<not> blocked s l t) (dequeOf s l)) \<le> i"
    by (rule takeWhile_stops)
  with delivered_prefix(2) [OF assms, of l] show "length (deliveredTo l evs) \<le> i"
    by simp
qed

theorem sendCallbacks_stops_at_open_or_pending_witness:
  "distinct (map fst (mCompletedTransactions
      \<lparr>mRegisteringTransactions = {},
       mPendingTransactions = [(1, [([\<lparr>callback_id = 2, callback_type = ON_COMPLETE\<rparr>], 1)])],
       mCompletedTransactions =
         [(1, [newTransactionStats [\<lparr>callback_id = 1, callback_type = ON_COMPLETE\<rparr>],
               newTransactionStats [\<lparr>callback_id = 2, callback_type = ON_COMPLETE\<rparr>],
               newTransactionStats [\<lparr>callback_id = 3, callback_type = ON_COMPLETE\<rparr>]])],
       mPresentFence = Some 9\<rparr>))
   \<and> sendCallbacks (\<lambda>_. True)
      \<lparr>mRegisteringTransactions = {},
       mPendingTransactions = [(1, [([\<lparr>callback_id = 2, callback_type = ON_COMPLETE\<rparr>], 1)])],
       mCompletedTransactions =
         [(1, [newTransactionStats [\<lparr>callback_id = 1, callback_type = ON_COMPLETE\<rparr>],
               newTransactionStats [\<lparr>callback_id = 2, callback_type = ON_COMPLETE\<rparr>],
               newTransactionStats [\<lparr>callback_id = 3, callback_type = ON_COMPLETE\<rparr>]])],
       mPresentFence = Some 9\<rparr>
     = ([OnTransactionCompleted
           \<lparr>stats_listener = 1,
            transactionStats =
              [newTransactionStats [\<lparr>callback_id = 1, callback_type = ON_COMPLETE\<rparr>]]\<rparr>],
        \<lparr>mRegisteringTransactions = {},
         mPendingTransactions = [(1, [([\<lparr>callback_id = 2, callback_type = ON_COMPLETE\<rparr>], 1)])],
         mCompletedTransactions =
           [(1, [newTransactionStats [\<lparr>callback_id = 2, callback_type = ON_COMPLETE\<rparr>],
                 newTransactionStats [\<lparr>callback_id = 3, callback_type = ON_COMPLETE\<rparr>]])],
         mPresentFence = None\<rparr>)
   \<and> length (deliveredTo 1 [OnTransactionCompleted
           \<lparr>stats_listener = 1,
            transactionStats =
              [newTransactionStats [\<lparr>callback_id = 1, callback_type = ON_COMPLETE\<rparr>]]\<rparr>]) \<le> 1"
proof -
  let ?s = "\<lparr>mRegisteringTransactions = {},
       mPendingTransactions = [(1, [([\<lparr>callback_id = 2, callback_type = ON_COMPLETE\<rparr>], 1::32 word)])],
       mCompletedTransactions =
         [(1::nat, [newTransactionStats [\<lparr>callback_id = 1, callback_type = ON_COMPLETE\<rparr>],
               newTransactionStats [\<lparr>callback_id = 2, callback_type = ON_COMPLETE\<rparr>],
               newTransactionStats [\<lparr>callback_id = 3, callback_type = ON_COMPLETE\<rparr>]])],
       mPresentFence = Some 9\<rparr>"
  let ?evs = "[OnTransactionCompleted
           \<lparr>stats_listener = 1,
            transactionStats =
              [newTransactionStats [\<lparr>callback_id = 1, callback_type = ON_COMPLETE\<rparr>]]\<rparr>]"
  let ?s' = "\<lparr>mRegisteringTransactions = {},
         mPendingTransactions = [(1, [([\<lparr>callback_id = 2, callback_type = ON_COMPLETE\<rparr>], 1::32 word)])],
         mCompletedTransactions =
           [(1::nat, [newTransactionStats [\<lparr>callback_id = 2, callback_type = ON_COMPLETE\<rparr>],
                 newTransactionStats [\<lparr>callback_id = 3, callback_type = ON_COMPLETE\<rparr>]])],
         mPresentFence = None\<rparr>"
  have d: "distinct (map fst (mCompletedTransactions ?s))"
    by simp
  have e: "sendCallbacks (\<lambda>_. True) ?s = (?evs, ?s')"
    by (simp add: sendCallbacks_def isRegisteringTransaction_def isPending_def
        containsOnCommitCallbacks_def newTransactionStats_def)
  have p: "isPending ?s 1 (callbackIds (dequeOf ?s 1 ! 1))"
    by (simp add: isPending_def dequeOf_def newTransactionStats_def)
  from sendCallbacks_stops_at_open_or_pending [OF d e, of 1] p have "length (deliveredTo 1 ?evs) \<le> 1"
    by (simp add: dequeOf_def)
  with d e show ?thesis by simp
qed

text \<open>
  C3, the claim as stated fails. With no present fence set, the first transaction below
  is latched and holds an on-complete callback behind its leading on-commit one, and it
  is sent, without a present fence; the third has on-commit callbacks only, is latched,
  not registering and not pending, and it is not sent, because the walk stopped at the
  second.
\<close>

theorem sendCallbacks_commit_front_counterexample:
  "sendCallbacks (\<lambda>_. True)
      \<lparr>mRegisteringTransactions = {}, mPendingTransactions = [],
       mCompletedTransactions =
         [(1, [\<lparr>callbackIds = [\<lparr>callback_id = 1, callback_type = ON_COMMIT\<rparr>,
                                \<lparr>callback_id = 2, callback_type = ON_COMPLETE\<rparr>],
                latchTime = 10, presentFence = None, surfaceStats = []\<rparr>,
               \<lparr>callbackIds = [\<lparr>callback_id = 3, callback_type = ON_COMPLETE\<rparr>],
                latchTime = 10, presentFence = None, surfaceStats = []\<rparr>,
               \<lparr>callbackIds = [\<lparr>callback_id = 4, callback_type = ON_COMMIT\<rparr>],
                latchTime = 10, presentFence = None, surfaceStats = []\<rparr>])],
       mPresentFence = None\<rparr>
     = ([OnTransactionCompleted
           \<lparr>stats_listener = 1,
            transactionStats =
              [\<lparr>callbackIds = [\<lparr>callback_id = 1, callback_type = ON_COMMIT\<rparr>,
                               \<lparr>callback_id = 2, callback_type = ON_COMPLETE\<rparr>],
                latchTime = 10, presentFence = None, surfaceStats = []\<rparr>]\<rparr>],
        \<lparr>mRegisteringTransactions = {}, mPendingTransactions = [],
         mCompletedTransactions =
           [(1, [\<lparr>callbackIds = [\<lparr>callback_id = 3, callback_type = ON_COMPLETE\<rparr>],
                  latchTime = 10, presentFence = None, surfaceStats = []\<rparr>,
                 \<lparr>callbackIds = [\<lparr>callback_id = 4, callback_type = ON_COMMIT\<rparr>],
                  latchTime = 10, presentFence = None, surfaceStats = []\<rparr>])],
         mPresentFence = None\<rparr>)"
  by (simp add: sendCallbacks_def isRegisteringTransaction_def isPending_def
      containsOnCommitCallbacks_def)

text \<open>
  C3, amended: the test is on the leading callback id. A transaction that is sent and was
  latched with a leading id that is not on-commit (or with no ids) is sent only when the
  present fence is set, and carries it; every other transaction that is sent is sent as
  it is. A transaction whose leading id is on-commit, which is neither registering nor
  pending, and which the walk reaches (all earlier transactions of the listener are sent
  in this cycle, and the listener is alive) is sent, whether the present fence is set or
  not and whether it was latched or not.
\<close>

theorem sendCallbacks_present_fence:
  assumes "distinct (map fst (mCompletedTransactions s))"
      and "sendCallbacks isBinderAlive s = (evs, s')"
  shows "length (deliveredTo l evs) \<le> length (dequeOf s l)
     \<and> (\<forall>i < length (deliveredTo l evs).
           (0 \<le> latchTime (dequeOf s l ! i)
              \<and> \<not> containsOnCommitCallbacks (callbackIds (dequeOf s l ! i)) \<longrightarrow>
                mPresentFence s \<noteq> None
                \<and> deliveredTo l evs ! i = (dequeOf s l ! i)\<lparr>presentFence := mPresentFence s\<rparr>)
           \<and> (containsOnCommitCallbacks (callbackIds (dequeOf s l ! i))
              \<or> latchTime (dequeOf s l ! i) < 0 \<longrightarrow>
                deliveredTo l evs ! i = dequeOf s l ! i))
     \<and> (\<forall>i < length (dequeOf s l).
           isBinderAlive l \<and> i \<le> length (deliveredTo l evs)
           \<and> containsOnCommitCallbacks (callbackIds (dequeOf s l ! i))
           \<and> \<not> isRegisteringTransaction s l (callbackIds (dequeOf s l ! i))
           \<and> \<not> isPending s l (callbackIds (dequeOf s l ! i))
           \<longrightarrow> i < length (deliveredTo l evs))"
proof -
  let ?P = "\<lambda>t. \<not> blocked s l t"
  let ?d = "dequeOf s l"
  let ?D = "deliveredTo l evs"
  note le = delivered_prefix(2) [OF assms, of l]
  have len: "length ?D \<le> length ?d"
    using le length_takeWhile_le [of ?P ?d] by (rule order_trans)
  have elem: "?D ! i = withPresentFence s (?d ! i) \<and> \<not> blocked s l (?d ! i)"
    if "i < length ?D" for i
  proof -
    from that le have i: "i < length (takeWhile ?P ?d)" by simp
    then have "takeWhile ?P ?d ! i = ?d ! i" by (rule takeWhile_nth)
    moreover from i have "takeWhile ?P ?d ! i \<in> set (takeWhile ?P ?d)" by (rule nth_mem)
    then have "\<not> blocked s l (takeWhile ?P ?d ! i)" by (rule set_takeWhileD [THEN conjunct2])
    moreover have "?D ! i = withPresentFence s (?d ! i)"
    proof -
      define n where "n = length ?D"
      have "?D = map (withPresentFence s) (take n ?d)"
        unfolding n_def by (rule delivered_prefix(1) [OF assms])
      moreover have "i < n" "n \<le> length ?d"
        using that len by (simp_all add: n_def)
      ultimately show ?thesis by simp
    qed
    ultimately show ?thesis by simp
  qed
  have reach: "i < length ?D"
    if "i < length ?d" "isBinderAlive l" "i \<le> length ?D"
       "containsOnCommitCallbacks (callbackIds (?d ! i))"
       "\<not> isRegisteringTransaction s l (callbackIds (?d ! i))"
       "\<not> isPending s l (callbackIds (?d ! i))" for i
  proof -
    from that have "?P (?d ! i)" by (simp add: blocked_def requiresPresentFence_def)
    with that(1) have "i < length (takeWhile ?P ?d)"
      using that(3) delivered_prefix(3) [OF assms that(2)]
      by (intro takeWhile_reaches) simp_all
    with delivered_prefix(3) [OF assms that(2)] show ?thesis by simp
  qed
  show ?thesis
    using len elem reach
    by (auto simp: withPresentFence_def blocked_def requiresPresentFence_def)
qed

theorem sendCallbacks_present_fence_witness:
  "distinct (map fst (mCompletedTransactions
      \<lparr>mRegisteringTransactions = {}, mPendingTransactions = [],
       mCompletedTransactions =
         [(1, [\<lparr>callbackIds = [\<lparr>callback_id = 7, callback_type = ON_COMPLETE\<rparr>],
                latchTime = 10, presentFence = None, surfaceStats = []\<rparr>,
               \<lparr>callbackIds = [\<lparr>callback_id = 8, callback_type = ON_COMMIT\<rparr>],
                latchTime = 10, presentFence = None, surfaceStats = []\<rparr>])],
       mPresentFence = Some 9\<rparr>))
   \<and> sendCallbacks (\<lambda>_. True)
      \<lparr>mRegisteringTransactions = {}, mPendingTransactions = [],
       mCompletedTransactions =
         [(1, [\<lparr>callbackIds = [\<lparr>callback_id = 7, callback_type = ON_COMPLETE\<rparr>],
                latchTime = 10, presentFence = None, surfaceStats = []\<rparr>,
               \<lparr>callbackIds = [\<lparr>callback_id = 8, callback_type = ON_COMMIT\<rparr>],
                latchTime = 10, presentFence = None, surfaceStats = []\<rparr>])],
       mPresentFence = Some 9\<rparr>
     = ([OnTransactionCompleted
           \<lparr>stats_listener = 1,
            transactionStats =
              [\<lparr>callbackIds = [\<lparr>callback_id = 7, callback_type = ON_COMPLETE\<rparr>],
                latchTime = 10, presentFence = Some 9, surfaceStats = []\<rparr>,
               \<lparr>callbackIds = [\<lparr>callback_id = 8, callback_type = ON_COMMIT\<rparr>],
                latchTime = 10, presentFence = None, surfaceStats = []\<rparr>]\<rparr>,
         UnlinkToDeath 1],
        \<lparr>mRegisteringTransactions = {}, mPendingTransactions = [],
         mCompletedTransactions = [], mPresentFence = None\<rparr>)
   \<and> mPresentFence
        \<lparr>mRegisteringTransactions = {}, mPendingTransactions = [],
         mCompletedTransactions =
           [(1, [\<lparr>callbackIds = [\<lparr>callback_id = 7, callback_type = ON_COMPLETE\<rparr>],
                  latchTime = 10, presentFence = None, surfaceStats = []\<rparr>,
                 \<lparr>callbackIds = [\<lparr>callback_id = 8, callback_type = ON_COMMIT\<rparr>],
                  latchTime = 10, presentFence = None, surfaceStats = []\<rparr>])],
         mPresentFence = Some 9\<rparr> \<noteq> None"
proof -
  let ?s = "\<lparr>mRegisteringTransactions = {}, mPendingTransactions = [],
       mCompletedTransactions =
         [(1::nat, [\<lparr>callbackIds = [\<lparr>callback_id = 7, callback_type = ON_COMPLETE\<rparr>],
                latchTime = 10, presentFence = None, surfaceStats = []\<rparr>,
               \<lparr>callbackIds = [\<lparr>callback_id = 8, callback_type = ON_COMMIT\<rparr>],
                latchTime = 10, presentFence = None, surfaceStats = []\<rparr>])],
       mPresentFence = Some 9\<rparr>"
  let ?evs = "[OnTransactionCompleted
           \<lparr>stats_listener = 1,
            transactionStats =
              [\<lparr>callbackIds = [\<lparr>callback_id = 7, callback_type = ON_COMPLETE\<rparr>],
                latchTime = 10, presentFence = Some 9, surfaceStats = []\<rparr>,
               \<lparr>callbackIds = [\<lparr>callback_id = 8, callback_type = ON_COMMIT\<rparr>],
                latchTime = 10, presentFence = None, surfaceStats = []\<rparr>]\<rparr>,
         UnlinkToDeath 1]"
  let ?s' = "\<lparr>mRegisteringTransactions = {}, mPendingTransactions = [],
         mCompletedTransactions = [], mPresentFence = None\<rparr>"
  have d: "distinct (map fst (mCompletedTransactions ?s))"
    by simp
  have e: "sendCallbacks (\<lambda>_. True) ?s = (?evs, ?s')"
    by (simp add: sendCallbacks_def isRegisteringTransaction_def isPending_def
        containsOnCommitCallbacks_def)
  from sendCallbacks_present_fence [OF d e, of 1] have "mPresentFence ?s \<noteq> None"
    by (simp add: dequeOf_def containsOnCommitCallbacks_def)
  with d e show ?thesis by simp
qed

text \<open>
  C6, the claim as stated fails: a listener that is not alive at send time loses its
  entry of \<open>mCompletedTransactions\<close>, and no \<^verbatim>\<open>unlinkToDeath\<close> is called.
\<close>

theorem sendCallbacks_dead_listener_counterexample:
  "sendCallbacks (\<lambda>_. False)
      \<lparr>mRegisteringTransactions = {}, mPendingTransactions = [],
       mCompletedTransactions =
         [(1, [newTransactionStats [\<lparr>callback_id = 5, callback_type = ON_COMMIT\<rparr>]])],
       mPresentFence = None\<rparr>
     = ([], \<lparr>mRegisteringTransactions = {}, mPendingTransactions = [],
             mCompletedTransactions = [], mPresentFence = None\<rparr>)"
  by (simp add: sendCallbacks_def isRegisteringTransaction_def isPending_def
      containsOnCommitCallbacks_def newTransactionStats_def)

text \<open>
  C6, amended, for a listener with a deque \<open>d\<close> before the cycle. \<^verbatim>\<open>unlinkToDeath\<close> is
  called exactly when the listener is alive and its whole non-empty deque is sent; then
  the batch is the whole deque and the entry is erased. A listener that is not alive and
  whose first transaction is not blocked is sent nothing, is not unlinked, and its entry
  is erased. In every other case the entry stays.
\<close>

theorem sendCallbacks_unlink:
  assumes "distinct (map fst (mCompletedTransactions s))"
      and "sendCallbacks isBinderAlive s = (evs, s')"
      and "map_of (mCompletedTransactions s) l = Some d"
  shows "(UnlinkToDeath l \<in> set evs \<longleftrightarrow>
            isBinderAlive l \<and> d \<noteq> [] \<and> (\<forall>t \<in> set d. \<not> blocked s l t))
     \<and> (isBinderAlive l \<and> d \<noteq> [] \<and> (\<forall>t \<in> set d. \<not> blocked s l t) \<longrightarrow>
            deliveredTo l evs = map (withPresentFence s) d
            \<and> map_of (mCompletedTransactions s') l = None)
     \<and> (\<not> isBinderAlive l \<and> d \<noteq> [] \<and> \<not> blocked s l (hd d) \<longrightarrow>
            deliveredTo l evs = []
            \<and> map_of (mCompletedTransactions s') l = None)
     \<and> (map_of (mCompletedTransactions s') l = None \<longleftrightarrow>
            d \<noteq> [] \<and> \<not> blocked s l (hd d)
            \<and> (isBinderAlive l \<longrightarrow> (\<forall>t \<in> set d. \<not> blocked s l t)))"
proof -
  let ?P = "\<lambda>t. \<not> blocked s l t"
  have d: "dequeOf s l = d"
    using assms(3) by (simp add: dequeOf_def)
  have tk: "takeWhile ?P d \<noteq> [] \<longleftrightarrow> d \<noteq> [] \<and> \<not> blocked s l (hd d)"
    by (cases d) simp_all
  have dr: "dropWhile ?P d = [] \<longleftrightarrow> (\<forall>t \<in> set d. \<not> blocked s l t)"
    by (simp add: dropWhile_eq_Nil_conv)
  have all: "(\<forall>t \<in> set d. \<not> blocked s l t) \<Longrightarrow> takeWhile ?P d = d"
    by (simp add: takeWhile_eq_all_conv)
  note L = sendCallbacks_listener(1,3,4) [OF assms(1,2), of l, unfolded d]
  show ?thesis
  proof (cases "\<forall>t \<in> set d. \<not> blocked s l t")
    case True
    then have tw: "takeWhile ?P d = d" by (rule all)
    have "d \<noteq> [] \<Longrightarrow> \<not> blocked s l (hd d)"
      using True by (cases d) simp_all
    with L [unfolded tw dr] True assms(3) show ?thesis
      by auto
  next
    case False
    with L [unfolded tk dr] assms(3) show ?thesis
      by auto
  qed
qed

theorem sendCallbacks_unlink_witness:
  "distinct (map fst (mCompletedTransactions
      \<lparr>mRegisteringTransactions = {}, mPendingTransactions = [],
       mCompletedTransactions =
         [(1, [newTransactionStats [\<lparr>callback_id = 5, callback_type = ON_COMMIT\<rparr>]])],
       mPresentFence = None\<rparr>))
   \<and> sendCallbacks (\<lambda>_. True)
      \<lparr>mRegisteringTransactions = {}, mPendingTransactions = [],
       mCompletedTransactions =
         [(1, [newTransactionStats [\<lparr>callback_id = 5, callback_type = ON_COMMIT\<rparr>]])],
       mPresentFence = None\<rparr>
     = ([OnTransactionCompleted
           \<lparr>stats_listener = 1,
            transactionStats =
              [newTransactionStats [\<lparr>callback_id = 5, callback_type = ON_COMMIT\<rparr>]]\<rparr>,
         UnlinkToDeath 1],
        \<lparr>mRegisteringTransactions = {}, mPendingTransactions = [],
         mCompletedTransactions = [], mPresentFence = None\<rparr>)
   \<and> map_of (mCompletedTransactions
      \<lparr>mRegisteringTransactions = {}, mPendingTransactions = [],
       mCompletedTransactions =
         [(1, [newTransactionStats [\<lparr>callback_id = 5, callback_type = ON_COMMIT\<rparr>]])],
       mPresentFence = None\<rparr>) 1
     = Some [newTransactionStats [\<lparr>callback_id = 5, callback_type = ON_COMMIT\<rparr>]]
   \<and> UnlinkToDeath 1 \<in> set [OnTransactionCompleted
           \<lparr>stats_listener = 1,
            transactionStats =
              [newTransactionStats [\<lparr>callback_id = 5, callback_type = ON_COMMIT\<rparr>]]\<rparr>,
         UnlinkToDeath 1]
   \<and> map_of (mCompletedTransactions
        \<lparr>mRegisteringTransactions = {}, mPendingTransactions = [],
         mCompletedTransactions = [], mPresentFence = None\<rparr>) (1::nat) = None"
proof -
  let ?t = "newTransactionStats [\<lparr>callback_id = 5, callback_type = ON_COMMIT\<rparr>]"
  let ?s = "\<lparr>mRegisteringTransactions = {}, mPendingTransactions = [],
       mCompletedTransactions = [(1::nat, [?t])], mPresentFence = None\<rparr>"
  let ?evs = "[OnTransactionCompleted \<lparr>stats_listener = 1, transactionStats = [?t]\<rparr>,
         UnlinkToDeath 1]"
  let ?s' = "\<lparr>mRegisteringTransactions = {}, mPendingTransactions = [],
         mCompletedTransactions = [], mPresentFence = None\<rparr>"
  have d: "distinct (map fst (mCompletedTransactions ?s))"
    by simp
  have e: "sendCallbacks (\<lambda>_. True) ?s = (?evs, ?s')"
    by (simp add: sendCallbacks_def isRegisteringTransaction_def isPending_def
        containsOnCommitCallbacks_def newTransactionStats_def)
  have m: "map_of (mCompletedTransactions ?s) 1 = Some [?t]"
    by simp
  have free: "\<forall>t \<in> set [?t]. \<not> blocked ?s 1 t"
    by (simp add: blocked_def isRegisteringTransaction_def isPending_def
        requiresPresentFence_def newTransactionStats_def)
  from sendCallbacks_unlink [OF d e m] free
  have "UnlinkToDeath 1 \<in> set ?evs \<and> map_of (mCompletedTransactions ?s') (1::nat) = None"
    by simp
  with d e m show ?thesis by simp
qed

section \<open>Any sequence of calls\<close>



lemma ledgerIds_pending [simp]:
  "ledgerIds (s\<lparr>mPendingTransactions := p\<rparr>) l = ledgerIds s l"
  by (simp add: ledgerIds_def dequeOf_def)


















end
